theory Spec2Isabelle
  imports Main "HOL-Library.Sublist"
begin

section \<open>Strings\<close>

text \<open>
  A Python \<^verbatim>\<open>str\<close> is modelled as a \<^typ>\<open>string\<close> whose characters stand for the
  code points below 256. \<^verbatim>\<open>str.strip()\<close> without argument removes the characters
  for which \<^verbatim>\<open>str.isspace\<close> holds; below 256 these are U+0009..U+000D,
  U+001C..U+001F, U+0020, U+0085 and U+00A0.
\<close>

definition isspace :: "char \<Rightarrow> bool" where
  "isspace c = (c \<in> set [CHR 0x09, CHR 0x0A, CHR 0x0B, CHR 0x0C, CHR 0x0D,
                           CHR 0x1C, CHR 0x1D, CHR 0x1E, CHR 0x1F, CHR 0x20,
                           CHR 0x85, CHR 0xA0])"

definition strip :: "string \<Rightarrow> string" where
  "strip s = rev (dropWhile isspace (rev (dropWhile isspace s)))"

definition startswith :: "string \<Rightarrow> string \<Rightarrow> bool" where
  "startswith s p = (take (length p) s = p)"

section \<open>Phone normalization\<close>

text \<open>The table \<^verbatim>\<open>COUNTRY_CODES = {"KE": "254"}\<close>.\<close>

definition COUNTRY_CODES :: "string \<rightharpoonup> string" where
  "COUNTRY_CODES = [''KE'' \<mapsto> ''254'']"

text \<open>
  \<^verbatim>\<open>normalize_phone(phone, country=None)\<close>. The country hint is optional; a hint that
  is \<^verbatim>\<open>None\<close> is not a key of the table. The result is the triple
  \<^verbatim>\<open>(phone, normalized_00, normalized_country)\<close>.
\<close>

definition normalize_phone :: "string \<Rightarrow> string option \<Rightarrow> string \<times> bool \<times> bool" where
  "normalize_phone phone country =
     (if phone = [] then (phone, False, False)
      else
        let phone = strip phone;
            normalized_00 = startswith phone ''00'';
            phone = (if normalized_00 then ''+'' @ drop 2 phone else phone)
        in (case Option.bind country COUNTRY_CODES of
              None \<Rightarrow> (phone, normalized_00, False)
            | Some cc \<Rightarrow>
                if startswith phone ''0'' \<and> 9 \<le> length phone
                  then (''+'' @ cc @ drop 1 phone, normalized_00, True)
                else if startswith phone cc \<and> \<not> startswith phone ''+''
                  then (''+'' @ phone, normalized_00, True)
                else if startswith phone ''7'' \<and> 9 \<le> length phone
                  then (''+'' @ cc @ phone, normalized_00, True)
                else (phone, normalized_00, False)))"

section \<open>The conversion run\<close>

text \<open>
  An element of \<^verbatim>\<open>contacts\<close>: a dict whose keys \<^verbatim>\<open>first_name\<close>,
  \<^verbatim>\<open>last_name\<close> and \<^verbatim>\<open>phone_number\<close> are each absent (\<open>None\<close>) or bound to a
  string.
\<close>

record contact =
  first_name :: "string option"
  last_name :: "string option"
  phone_number :: "string option"

datatype name_mode = First | Last | Both

datatype dedupe = Phone

datatype format = Csv | Vcf

text \<open>
  The parsed command line. \<open>output_file\<close> is the resolved output path (the \<^verbatim>\<open>-o\<close>
  argument, or the name built from the clock); \<open>dedupe\<close> is \<open>None\<close> when the option
  is not given and \<open>Some Phone\<close> for \<^verbatim>\<open>--dedupe phone\<close>.
\<close>

record args =
  output_file :: string
  name_mode :: name_mode
  country :: "string option"
  dedupe :: "dedupe option"
  format :: format

text \<open>
  What the output file receives: one \<open>Row\<close> per \<^verbatim>\<open>writer.writerow\<close> call (the cells,
  before the csv module quotes and joins them) and one \<open>Write\<close> per \<^verbatim>\<open>out.write\<close>
  call.
\<close>

datatype out_item = Row "string list" | Write string

text \<open>The local variables of \<^verbatim>\<open>main\<close> that the loop updates, and the file contents.\<close>

record run =
  seen_phones :: "string set"
  total :: nat
  written :: nat
  dupes :: nat
  normalized_00 :: nat
  normalized_country :: nat
  out :: "out_item list"

text \<open>The header row (lines 115 to 120).\<close>

definition headers :: "name_mode \<Rightarrow> string list" where
  "headers nm =
     (if nm = First \<or> nm = Both then [''First Name''] else []) @
     (if nm = Last \<or> nm = Both then [''Last Name''] else []) @
     [''Phone'']"

text \<open>The data row of one contact (lines 142 to 147).\<close>

definition csv_row :: "name_mode \<Rightarrow> string \<Rightarrow> string \<Rightarrow> string \<Rightarrow> string list" where
  "csv_row nm first' last' phone =
     (if nm = First \<or> nm = Both then [first'] else []) @
     (if nm = Last \<or> nm = Both then [last'] else []) @
     [phone]"

text \<open>The six writes of one vCard (lines 151 to 156).\<close>

definition vcard :: "string \<Rightarrow> string \<Rightarrow> string \<Rightarrow> out_item list" where
  "vcard first' last' phone =
     [Write ''BEGIN:VCARD\<newline>'',
      Write ''VERSION:3.0\<newline>'',
      Write (''N:'' @ last' @ '';'' @ first' @ '';;;\<newline>''),
      Write (strip (''FN:'' @ first' @ '' '' @ last') @ ''\<newline>''),
      Write (''TEL;TYPE=CELL:'' @ phone @ ''\<newline>''),
      Write ''END:VCARD\<newline>\<newline>'']"

definition emit :: "args \<Rightarrow> string \<Rightarrow> string \<Rightarrow> string \<Rightarrow> out_item list" where
  "emit a first' last' phone =
     (case format a of
        Csv \<Rightarrow> [Row (csv_row (name_mode a) first' last' phone)]
      | Vcf \<Rightarrow> vcard first' last' phone)"

text \<open>\<^verbatim>\<open>c.get(key, "")\<close>.\<close>

definition get_default :: "string option \<Rightarrow> string" where
  "get_default v = (case v of None \<Rightarrow> [] | Some s \<Rightarrow> s)"

text \<open>
  One iteration of the loop (lines 127 to 158). A boolean added to a counter counts as
  0 or 1. The \<^verbatim>\<open>continue\<close> of the duplicate branch skips the emission and the
  increment of \<^verbatim>\<open>written\<close>. The progress bar only prints to the terminal.
\<close>

definition body :: "args \<Rightarrow> contact \<Rightarrow> run \<Rightarrow> run" where
  "body a c s =
     (let first' = get_default (first_name c);
          last' = get_default (last_name c);
          phone_raw = get_default (phone_number c);
          (phone, n00, ncty) = normalize_phone phone_raw (country a);
          s = s\<lparr>normalized_00 := normalized_00 s + (if n00 then 1 else 0)\<rparr>;
          s = s\<lparr>normalized_country := normalized_country s + (if ncty then 1 else 0)\<rparr>
      in if dedupe a = Some Phone \<and> phone \<in> seen_phones s
           then s\<lparr>dupes := dupes s + 1\<rparr>
         else
           let s = (if dedupe a = Some Phone
                      then s\<lparr>seen_phones := insert phone (seen_phones s)\<rparr> else s);
               s = s\<lparr>out := out s @ emit a first' last' phone\<rparr>
           in s\<lparr>written := written s + 1\<rparr>)"

fun loop :: "args \<Rightarrow> contact list \<Rightarrow> run \<Rightarrow> run" where
  "loop a [] s = s"
| "loop a (c # cs) s = loop a cs (body a c s)"

text \<open>
  Lines 104 to 124: the counters are initialised, the output file is opened for writing
  (so it starts empty) and, for CSV, the header row is written.
\<close>

definition start :: "args \<Rightarrow> contact list \<Rightarrow> run" where
  "start a contacts =
     \<lparr>seen_phones = {}, total = length contacts, written = 0, dupes = 0,
      normalized_00 = 0, normalized_country = 0,
      out = (case format a of Csv \<Rightarrow> [Row (headers (name_mode a))] | Vcf \<Rightarrow> [])\<rparr>"

text \<open>Lines 104 to 162: the whole conversion of a contact list.\<close>

definition convert :: "args \<Rightarrow> contact list \<Rightarrow> run" where
  "convert a contacts = loop a contacts (start a contacts)"

section \<open>The input document and the program\<close>

text \<open>
  The value \<^verbatim>\<open>json.load\<close> returns. An object is given by the items of the resulting
  dict (one pair per key, looked up by \<open>map_of\<close>). A number is an integer or a float,
  the latter given by a decimal mantissa and exponent; the program treats all numbers
  alike.
\<close>

datatype json =
    JNull
  | JBool bool
  | JInt int
  | JFloat int int
  | JStr string
  | JArr "json list"
  | JObj "(string \<times> json) list"

datatype py_error = KeyError | TypeError

text \<open>\<^verbatim>\<open>v[k]\<close> for a string key: only a dict accepts it, and raises KeyError when the
  key is missing; every other JSON value raises TypeError.\<close>

fun getitem :: "json \<Rightarrow> string \<Rightarrow> py_error + json" where
  "getitem (JObj m) k = (case map_of m k of None \<Rightarrow> Inl KeyError | Some v \<Rightarrow> Inr v)"
| "getitem _ k = Inl TypeError"

text \<open>Line 97: \<^verbatim>\<open>data["contacts"]["list"]\<close>.\<close>

definition contacts_list :: "json \<Rightarrow> py_error + json" where
  "contacts_list data =
     (case getitem data ''contacts'' of
        Inl e \<Rightarrow> Inl e
      | Inr v \<Rightarrow> getitem v ''list'')"

text \<open>
  Reading a field of a contact dict whose value, if present, is a string. A contact
  with a field of another JSON type has no image: what the program does with it depends
  on Python's dynamic typing and is not part of this development.
\<close>

definition str_field :: "(string \<times> json) list \<Rightarrow> string \<Rightarrow> string option option" where
  "str_field m k =
     (case map_of m k of
        None \<Rightarrow> Some None
      | Some (JStr s) \<Rightarrow> Some (Some s)
      | Some _ \<Rightarrow> None)"

fun as_contact :: "json \<Rightarrow> contact option" where
  "as_contact (JObj m) =
     (case (str_field m ''first_name'', str_field m ''last_name'', str_field m ''phone_number'') of
        (Some f, Some l, Some p) \<Rightarrow> Some \<lparr>first_name = f, last_name = l, phone_number = p\<rparr>
      | _ \<Rightarrow> None)"
| "as_contact _ = None"

fun as_contacts :: "json list \<Rightarrow> contact list option" where
  "as_contacts [] = Some []"
| "as_contacts (v # vs) =
     (case as_contact v of
        None \<Rightarrow> None
      | Some c \<Rightarrow> (case as_contacts vs of None \<Rightarrow> None | Some cs \<Rightarrow> Some (c # cs)))"

text \<open>
  How a run of the program ends: \<^verbatim>\<open>sys.exit(n)\<close>, an exception nobody catches, or
  the summary of a completed run.
\<close>

datatype ending = SystemExit nat | Uncaught py_error | Complete run

text \<open>
  \<^verbatim>\<open>main\<close> from line 96 on, for the parsed arguments, the files on disk (a path is
  bound to its contents when the file exists) and the parsed input document. The result is
  how the run ends and the files afterwards. The \<^verbatim>\<open>except KeyError\<close> clause turns a
  KeyError into \<^verbatim>\<open>sys.exit(1)\<close>; a TypeError passes through it. \<^verbatim>\<open>len(contacts)\<close>
  on line 105 raises TypeError for null, booleans and numbers. The output file is opened
  on line 112 or 124, after all of these. The result is \<open>None\<close> where
  \<^verbatim>\<open>contacts\<close> is a string, a dict, or a list with an element that is not a typed
  contact: those runs are not described here.
\<close>

definition main ::
  "args \<Rightarrow> (string \<rightharpoonup> out_item list) \<Rightarrow> json \<Rightarrow> (ending \<times> (string \<rightharpoonup> out_item list)) option" where
  "main a files data =
     (case contacts_list data of
        Inl KeyError \<Rightarrow> Some (SystemExit 1, files)
      | Inl TypeError \<Rightarrow> Some (Uncaught TypeError, files)
      | Inr JNull \<Rightarrow> Some (Uncaught TypeError, files)
      | Inr (JBool _) \<Rightarrow> Some (Uncaught TypeError, files)
      | Inr (JInt _) \<Rightarrow> Some (Uncaught TypeError, files)
      | Inr (JFloat _ _) \<Rightarrow> Some (Uncaught TypeError, files)
      | Inr (JArr vs) \<Rightarrow>
          (case as_contacts vs of
             None \<Rightarrow> None
           | Some contacts \<Rightarrow>
               (let r = convert a contacts
                in Some (Complete r, files(output_file a \<mapsto> out r))))
      | Inr _ \<Rightarrow> None)"

section \<open>Notions used to state the properties\<close>

text \<open>The normalized phone of a contact in a run: the first component of what line 131
  computes from the contact's \<^verbatim>\<open>phone_number\<close> and the run's country.\<close>

definition phone_of :: "args \<Rightarrow> contact \<Rightarrow> string" where
  "phone_of a c = fst (normalize_phone (get_default (phone_number c)) (country a))"

text \<open>What lines 141 to 156 write for a contact that is not skipped.\<close>

definition emitted :: "args \<Rightarrow> contact \<Rightarrow> out_item list" where
  "emitted a c =
     emit a (get_default (first_name c)) (get_default (last_name c)) (phone_of a c)"

text \<open>The document has the path \<^verbatim>\<open>contacts.list\<close>: it is an object whose key
  \<^verbatim>\<open>contacts\<close> is bound to an object that has the key \<^verbatim>\<open>list\<close>.\<close>

definition has_contacts_list :: "json \<Rightarrow> bool" where
  "has_contacts_list data =
     (case data of
        JObj m \<Rightarrow>
          (case map_of m ''contacts'' of
             Some (JObj m') \<Rightarrow> map_of m' ''list'' \<noteq> None
           | _ \<Rightarrow> False)
      | _ \<Rightarrow> False)"

section \<open>Facts about trimming and prefixes\<close>

lemma strip_Nil [simp]: "strip [] = []"
  by (simp add: strip_def)

lemma strip_hd_last:
  assumes "strip s \<noteq> []"
  shows "\<not> isspace (hd (strip s))" and "\<not> isspace (last (strip s))"
proof -
  let ?t = "dropWhile isspace s"
  let ?u = "dropWhile isspace (rev ?t)"
  from assms have u: "?u \<noteq> []" by (simp add: strip_def)
  then have "\<not> isspace (hd ?u)" by (rule hd_dropWhile)
  then show "\<not> isspace (last (strip s))"
    using u by (simp add: strip_def last_rev)
  have t: "?t \<noteq> []"
  proof
    assume e: "?t = []"
    have "?u = []" unfolding e by simp
    with u show False by simp
  qed
  then have ht: "\<not> isspace (hd ?t)" by (rule hd_dropWhile)
  have "hd (rev ?u) = hd ?t"
  proof -
    obtain a as where tas: "?t = a # as" using t by (cases ?t) auto
    have "\<not> isspace a" using ht tas by simp
    then have "a \<in> set (rev ?t) \<and> \<not> isspace a" using tas by simp
    have "?u = (dropWhile isspace (rev as)) @ [a] \<or> ?u = [a]"
      using tas \<open>\<not> isspace a\<close> by (simp add: dropWhile_append) 
    then show ?thesis using tas by (auto simp: dropWhile_append3 split: if_splits)
  qed
  then show "\<not> isspace (hd (strip s))" using ht by (simp add: strip_def)
qed

lemma strip_id:
  assumes "s \<noteq> []" "\<not> isspace (hd s)" "\<not> isspace (last s)"
  shows "strip s = s"
proof -
  have 1: "dropWhile isspace s = s" using assms by (cases s) auto
  have "rev s \<noteq> []" "\<not> isspace (hd (rev s))" using assms by (simp_all add: hd_rev)
  then have 2: "dropWhile isspace (rev s) = rev s" by (cases "rev s") auto
  show ?thesis by (simp add: strip_def 1 2)
qed

lemma strip_strip [simp]: "strip (strip s) = strip s"
  by (cases "strip s = []") (simp_all add: strip_id strip_hd_last)

lemma isspace_plus [simp]: "\<not> isspace CHR ''+''"
  by (simp add: isspace_def)

lemma startswith_plus [simp]:
  "startswith (CHR ''+'' # x) ''0'' = False"
  "startswith (CHR ''+'' # x) ''7'' = False"
  "startswith (CHR ''+'' # x) ''00'' = False"
  "startswith (CHR ''+'' # x) ''+'' = True"
  by (simp_all add: startswith_def)

lemma startswith_Nil [simp]: "startswith [] (a # p) = False"
  by (simp add: startswith_def)

lemma normalize_phone_empty [simp]: "normalize_phone [] c = ([], False, False)"
  by (simp add: normalize_phone_def)

lemma normalize_phone_00:
  assumes "p \<noteq> []" "startswith (strip p) ''00''"
  shows "normalize_phone p c = (''+'' @ drop 2 (strip p), True, False)"
  using assms by (simp add: normalize_phone_def Let_def split: option.splits)

lemma normalize_phone_no00:
  assumes "p \<noteq> []" "\<not> startswith (strip p) ''00''"
  shows "normalize_phone p c =
     (case Option.bind c COUNTRY_CODES of
        None \<Rightarrow> (strip p, False, False)
      | Some cc \<Rightarrow>
          if startswith (strip p) ''0'' \<and> 9 \<le> length (strip p)
            then (''+'' @ cc @ drop 1 (strip p), False, True)
          else if startswith (strip p) cc \<and> \<not> startswith (strip p) ''+''
            then (''+'' @ strip p, False, True)
          else if startswith (strip p) ''7'' \<and> 9 \<le> length (strip p)
            then (''+'' @ cc @ strip p, False, True)
          else (strip p, False, False))"
  using assms
  by (cases "Option.bind c COUNTRY_CODES") (simp_all add: normalize_phone_def Let_def)

lemma normalize_phone_plus:
  assumes "\<not> isspace (last (CHR ''+'' # t))"
  shows "normalize_phone (CHR ''+'' # t) c = (CHR ''+'' # t, False, False)"
proof -
  have "strip (CHR ''+'' # t) = CHR ''+'' # t"
    using assms by (intro strip_id) simp_all
  then show ?thesis
    by (simp add: normalize_phone_def Let_def split: option.splits)
qed

lemma normalize_phone_fired:
  assumes "normalize_phone p c = (q, f00, fcc)" "f00 \<or> fcc"
  shows "\<exists>t. q = CHR ''+'' # t \<and> \<not> isspace (last q)"
proof -
  from assms have p: "p \<noteq> []" by (auto simp: normalize_phone_def)
  let ?s = "strip p"
  show ?thesis
  proof (cases "startswith ?s ''00''")
    case True
    then have s: "?s \<noteq> []" by (auto simp: startswith_def)
    then have "\<not> isspace (last ?s)" by (rule strip_hd_last)
    moreover have "q = CHR ''+'' # drop 2 ?s"
      using normalize_phone_00 [OF p True, of c] assms by simp
    ultimately show ?thesis by (auto simp: last_drop)
  next
    case False
    note n = normalize_phone_no00 [OF p False, of c]
    from n assms obtain cc where cc: "Option.bind c COUNTRY_CODES = Some cc"
      by (cases "Option.bind c COUNTRY_CODES") auto
    have ls: "\<not> isspace (last ?s)" if "?s \<noteq> []"
      using that by (rule strip_hd_last)
    have ne: "?s \<noteq> []" if "9 \<le> length ?s"
      using that by auto
    from n cc assms show ?thesis
      by (auto simp: last_drop ls ne split: if_splits)
  qed
qed

section \<open>Facts about the loop\<close>

lemma body_dup:
  assumes "dedupe a = Some Phone" "phone_of a c \<in> seen_phones s"
  shows "out (body a c s) = out s" "written (body a c s) = written s"
    "dupes (body a c s) = dupes s + 1" "seen_phones (body a c s) = seen_phones s"
    "total (body a c s) = total s"
  using assms
  by (cases "normalize_phone (get_default (phone_number c)) (country a)";
      simp add: body_def phone_of_def Let_def)+

lemma body_new:
  assumes "dedupe a = Some Phone" "phone_of a c \<notin> seen_phones s"
  shows "out (body a c s) = out s @ emitted a c" "written (body a c s) = written s + 1"
    "dupes (body a c s) = dupes s"
    "seen_phones (body a c s) = insert (phone_of a c) (seen_phones s)"
    "total (body a c s) = total s"
  using assms
  by (cases "normalize_phone (get_default (phone_number c)) (country a)";
      simp add: body_def phone_of_def emitted_def Let_def)+

lemma body_off:
  assumes "dedupe a = None"
  shows "out (body a c s) = out s @ emitted a c" "written (body a c s) = written s + 1"
    "dupes (body a c s) = dupes s" "total (body a c s) = total s"
  using assms
  by (cases "normalize_phone (get_default (phone_number c)) (country a)";
      simp add: body_def phone_of_def emitted_def Let_def)+

lemma loop_append: "loop a (xs @ ys) s = loop a ys (loop a xs s)"
  by (induction xs arbitrary: s) simp_all

lemma loop_off:
  assumes "dedupe a = None"
  shows "out (loop a cs s) = out s @ concat (map (emitted a) cs) \<and>
         written (loop a cs s) = written s + length cs \<and>
         dupes (loop a cs s) = dupes s \<and> total (loop a cs s) = total s"
  using assms by (induction cs arbitrary: s) (simp_all add: body_off)

lemma loop_phone:
  assumes "dedupe a = Some Phone"
  shows "\<exists>ks. subseq ks cs \<and>
           out (loop a cs s) = out s @ concat (map (emitted a) ks) \<and>
           written (loop a cs s) = written s + length ks \<and>
           dupes (loop a cs s) + length ks = dupes s + length cs \<and>
           total (loop a cs s) = total s \<and>
           distinct (map (phone_of a) ks) \<and>
           set (map (phone_of a) ks) = set (map (phone_of a) cs) - seen_phones s \<and>
           seen_phones (loop a cs s) = seen_phones s \<union> set (map (phone_of a) cs)"
proof (induction cs arbitrary: s)
  case Nil
  show ?case by simp
next
  case (Cons c cs)
  obtain ks where ks: "subseq ks cs"
    "out (loop a cs (body a c s)) = out (body a c s) @ concat (map (emitted a) ks)"
    "written (loop a cs (body a c s)) = written (body a c s) + length ks"
    "dupes (loop a cs (body a c s)) + length ks = dupes (body a c s) + length cs"
    "total (loop a cs (body a c s)) = total (body a c s)"
    "distinct (map (phone_of a) ks)"
    "set (map (phone_of a) ks) = set (map (phone_of a) cs) - seen_phones (body a c s)"
    "seen_phones (loop a cs (body a c s)) = seen_phones (body a c s) \<union> set (map (phone_of a) cs)"
    using Cons.IH [of "body a c s"] by blast
  let ?r = "loop a (c # cs) s"
  have r: "?r = loop a cs (body a c s)" by simp
  show ?case
  proof (cases "phone_of a c \<in> seen_phones s")
    case True
    note b = body_dup [OF assms True]
    have 1: "subseq ks (c # cs)" using ks(1) by (rule list_emb_Cons)
    have 2: "out ?r = out s @ concat (map (emitted a) ks)"
      unfolding r ks(2) b(1) ..
    have 3: "written ?r = written s + length ks"
      unfolding r ks(3) b(2) ..
    have 4: "dupes ?r + length ks = dupes s + length (c # cs)"
      unfolding r using ks(4) b(3) by simp
    have 5: "total ?r = total s"
      unfolding r ks(5) b(5) ..
    have 7: "set (map (phone_of a) ks) = set (map (phone_of a) (c # cs)) - seen_phones s"
      unfolding ks(7) b(4) using True by auto
    have 8: "seen_phones ?r = seen_phones s \<union> set (map (phone_of a) (c # cs))"
      unfolding r ks(8) b(4) using True by auto
    from 1 2 3 4 5 ks(6) 7 8 show ?thesis by blast
  next
    case False
    note b = body_new [OF assms False]
    have 1: "subseq (c # ks) (c # cs)" using ks(1) by simp
    have 2: "out ?r = out s @ concat (map (emitted a) (c # ks))"
      unfolding r ks(2) b(1) by simp
    have 3: "written ?r = written s + length (c # ks)"
      unfolding r ks(3) b(2) by simp
    have 4: "dupes ?r + length (c # ks) = dupes s + length (c # cs)"
      unfolding r using ks(4) b(3) by simp
    have 5: "total ?r = total s"
      unfolding r ks(5) b(5) ..
    have k7: "set (map (phone_of a) ks) =
        set (map (phone_of a) cs) - insert (phone_of a c) (seen_phones s)"
      using ks(7) unfolding b(4) .
    have 6: "distinct (map (phone_of a) (c # ks))"
      using ks(6) k7 by auto
    have 7: "set (map (phone_of a) (c # ks)) = set (map (phone_of a) (c # cs)) - seen_phones s"
      using k7 False by auto
    have 8: "seen_phones ?r = seen_phones s \<union> set (map (phone_of a) (c # cs))"
      unfolding r ks(8) b(4) by auto
    from 1 2 3 4 5 6 7 8 show ?thesis by blast
  qed
qed

lemma loop_seen:
  assumes "dedupe a = Some Phone"
  shows "seen_phones (loop a cs s) = seen_phones s \<union> set (map (phone_of a) cs)"
  using loop_phone [OF assms, of cs s] by blast

lemma start_simps:
  "seen_phones (start a cs) = {}" "total (start a cs) = length cs"
  "written (start a cs) = 0" "dupes (start a cs) = 0"
  by (simp_all add: start_def)

lemma strip_Cons:
  assumes "\<not> isspace x"
  shows "strip (x # t) = x # rev (dropWhile isspace (rev t))"
proof -
  have "dropWhile isspace (rev t @ [x]) = dropWhile isspace (rev t) @ [x]"
    using assms by (simp add: dropWhile_append)
  then show ?thesis using assms by (simp add: strip_def)
qed

lemma vcard_begin_count:
  "length (filter (\<lambda>w. w = Write ''BEGIN:VCARD\<newline>'') (vcard f l p)) = 1"
proof -
  have "\<not> isspace CHR ''F''" by (simp add: isspace_def)
  then have "strip (''FN:'' @ f @ '' '' @ l) =
      CHR ''F'' # rev (dropWhile isspace (rev (''N:'' @ f @ '' '' @ l)))"
    using strip_Cons [of "CHR ''F''" "''N:'' @ f @ '' '' @ l"] by simp
  then show ?thesis by (simp add: vcard_def)
qed

lemma vcards_begin_count:
  assumes "format a = Vcf"
  shows "length (filter (\<lambda>w. w = Write ''BEGIN:VCARD\<newline>'') (concat (map (emitted a) ks))) =
         length ks"
  using assms
  by (induction ks) (simp_all add: emitted_def emit_def vcard_begin_count)

lemma loop_kept:
  "\<exists>ks. subseq ks cs \<and>
        out (loop a cs s) = out s @ concat (map (emitted a) ks) \<and>
        written (loop a cs s) = written s + length ks"
proof (cases "dedupe a")
  case None
  from loop_off [OF None, of cs s] show ?thesis
    by (intro exI [of _ cs]) simp
next
  case (Some d)
  then have "dedupe a = Some Phone" by (cases d) simp
  from loop_phone [OF this, of cs s] show ?thesis by blast
qed

lemma not_has_contacts_list:
  assumes "\<not> has_contacts_list data"
  shows "contacts_list data = Inl KeyError \<or> contacts_list data = Inl TypeError"
proof (cases data)
  case (JObj m)
  show ?thesis
  proof (cases "map_of m ''contacts''")
    case None
    then show ?thesis using JObj by (simp add: contacts_list_def)
  next
    case (Some v)
    then show ?thesis using JObj assms
      by (cases v) (auto simp: contacts_list_def has_contacts_list_def split: option.splits)
  qed
qed (simp_all add: contacts_list_def)

section \<open>Claims about the phone normalizer\<close>

text \<open>
  C2. For a country of the table with calling code \<open>cc\<close>, let \<open>w\<close> be the string the
  country rules inspect (the phone, trimmed, after the "00" step). The rules are tried in
  the order (a), (b), (c) and the first that matches decides the result:
  (a) \<open>w\<close> starts with "0" and has length at least 9: the result is "+", \<open>cc\<close> and \<open>w\<close>
  without its leading zero;
  (b) otherwise, \<open>w\<close> starts with \<open>cc\<close> and not with "+": the result is "+" and \<open>w\<close>;
  (c) otherwise, \<open>w\<close> starts with "7" and has length at least 9: the result is "+",
  \<open>cc\<close> and \<open>w\<close>;
  when none matches, \<open>w\<close> is returned with the country flag false. In particular
  normalize("254712345678", "KE") and normalize("712345678", "KE") are both
  ("+254712345678", false, true).
\<close>

theorem normalize_phone_country_rules:
  assumes "COUNTRY_CODES k = Some cc"
    and "w = (if startswith (strip p) ''00'' then ''+'' @ drop 2 (strip p) else strip p)"
  shows
    "(startswith w ''0'' \<and> 9 \<le> length w \<longrightarrow>
        normalize_phone p (Some k) = (''+'' @ cc @ drop 1 w, False, True)) \<and>
     (\<not> (startswith w ''0'' \<and> 9 \<le> length w) \<and>
      startswith w cc \<and> \<not> startswith w ''+'' \<longrightarrow>
        normalize_phone p (Some k) = (''+'' @ w, False, True)) \<and>
     (\<not> (startswith w ''0'' \<and> 9 \<le> length w) \<and>
      \<not> (startswith w cc \<and> \<not> startswith w ''+'') \<and>
      startswith w ''7'' \<and> 9 \<le> length w \<longrightarrow>
        normalize_phone p (Some k) = (''+'' @ cc @ w, False, True)) \<and>
     (\<not> (startswith w ''0'' \<and> 9 \<le> length w) \<and>
      \<not> (startswith w cc \<and> \<not> startswith w ''+'') \<and>
      \<not> (startswith w ''7'' \<and> 9 \<le> length w) \<longrightarrow>
        normalize_phone p (Some k) = (w, startswith (strip p) ''00'', False)) \<and>
     normalize_phone ''254712345678'' (Some ''KE'') = (''+254712345678'', False, True) \<and>
     normalize_phone ''712345678'' (Some ''KE'') = (''+254712345678'', False, True)"
proof -
  have cc: "cc = ''254''"
    using assms(1) by (simp add: COUNTRY_CODES_def split: if_splits)
  have ex1: "normalize_phone ''254712345678'' (Some ''KE'') = (''+254712345678'', False, True)"
    by (simp add: normalize_phone_def strip_def isspace_def startswith_def COUNTRY_CODES_def)
  have ex2: "normalize_phone ''712345678'' (Some ''KE'') = (''+254712345678'', False, True)"
    by (simp add: normalize_phone_def strip_def isspace_def startswith_def COUNTRY_CODES_def)
  show ?thesis
  proof (cases "p = []")
    case True
    then have "w = []" using assms(2) by simp
    then show ?thesis using True cc ex1 ex2 by simp
  next
    case p: False
    show ?thesis
    proof (cases "startswith (strip p) ''00''")
      case True
      then have w: "w = CHR ''+'' # drop 2 (strip p)" using assms(2) by simp
      have "\<not> startswith w cc" using cc w by (simp add: startswith_def)
      then show ?thesis
        using normalize_phone_00 [OF p True, of "Some k"] True w ex1 ex2
        by simp
    next
      case False
      then have "w = strip p" using assms(2) by simp
      then show ?thesis
        using normalize_phone_no00 [OF p False, of "Some k"] assms(1) False ex1 ex2
        by simp
    qed
  qed
qed

theorem normalize_phone_country_rules_witness:
  "COUNTRY_CODES ''KE'' = Some ''254'' \<and>
   normalize_phone ''0712345678'' (Some ''KE'') = (''+254712345678'', False, True) \<and>
   normalize_phone ''254712345678'' (Some ''KE'') = (''+254712345678'', False, True) \<and>
   normalize_phone ''712345678'' (Some ''KE'') = (''+254712345678'', False, True) \<and>
   normalize_phone ''12345'' (Some ''KE'') = (''12345'', False, False)"
proof -
  have k: "COUNTRY_CODES ''KE'' = Some ''254''"
    by (simp add: COUNTRY_CODES_def)
  have s: "strip ''0712345678'' = ''0712345678''" "strip ''12345'' = ''12345''"
    by (simp_all add: strip_def isspace_def)
  show ?thesis
    using k normalize_phone_country_rules [OF k, of "''0712345678''" "''0712345678''"]
      normalize_phone_country_rules [OF k, of "''12345''" "''12345''"]
    by (simp add: s startswith_def)
qed

text \<open>
  C3. normalize is idempotent: if normalize(p, c) returns (q, f00, fcc), then
  normalize(q, c) returns (q, false, false); no rule fires on the normalized output.
\<close>

theorem normalize_phone_idempotent:
  assumes "normalize_phone p c = (q, f00, fcc)"
  shows "normalize_phone q c = (q, False, False)"
proof (cases "f00 \<or> fcc")
  case True
  from normalize_phone_fired [OF assms True] show ?thesis
    by (auto simp: normalize_phone_plus)
next
  case False
  show ?thesis
  proof (cases "p = []")
    case True
    then show ?thesis using assms by auto
  next
    case p: False
    have n00: "\<not> startswith (strip p) ''00''"
      using normalize_phone_00 [OF p, of c] assms False by auto
    note n = normalize_phone_no00 [OF p n00, of c]
    have q: "q = strip p"
      using n assms False by (auto split: option.splits if_splits)
    show ?thesis
    proof (cases "strip p = []")
      case True
      then show ?thesis using q by simp
    next
      case s: False
      have n00': "\<not> startswith (strip (strip p)) ''00''"
        using n00 by simp
      have "normalize_phone (strip p) c = normalize_phone p c"
        unfolding n normalize_phone_no00 [OF s n00', of c] strip_strip ..
      then show ?thesis using assms q False by simp
    qed
  qed
qed

theorem normalize_phone_idempotent_witness:
  "normalize_phone '' 0712345678 '' (Some ''KE'') = (''+254712345678'', False, True) \<and>
   normalize_phone ''+254712345678'' (Some ''KE'') = (''+254712345678'', False, False)"
proof -
  have r: "normalize_phone '' 0712345678 '' (Some ''KE'') = (''+254712345678'', False, True)"
    by (simp add: normalize_phone_def strip_def isspace_def startswith_def COUNTRY_CODES_def)
  from normalize_phone_idempotent [OF r] r show ?thesis by simp
qed

text \<open>
  C4, as the code has it. The phone is trimmed before any rule is tried, so the condition
  and the result are about the trimmed string: when the trimmed phone does not start with
  "00" and no country rule applies to it (no country hint, a country that is not in the
  table, or none of (a), (b), (c) matching the trimmed phone), normalize returns the
  trimmed phone, which is the input itself when the input has no leading or trailing
  whitespace, and both flags false.
\<close>

theorem normalize_phone_no_rule:
  assumes "\<not> startswith (strip p) ''00''"
    and "case Option.bind c COUNTRY_CODES of
           None \<Rightarrow> True
         | Some cc \<Rightarrow>
             \<not> (startswith (strip p) ''0'' \<and> 9 \<le> length (strip p)) \<and>
             \<not> (startswith (strip p) cc \<and> \<not> startswith (strip p) ''+'') \<and>
             \<not> (startswith (strip p) ''7'' \<and> 9 \<le> length (strip p))"
  shows "normalize_phone p c = (strip p, False, False) \<and>
         (strip p = p \<longrightarrow> normalize_phone p c = (p, False, False))"
proof (cases "p = []")
  case True
  then show ?thesis by simp
next
  case False
  from normalize_phone_no00 [OF False assms(1), of c] assms(2)
  show ?thesis by (auto split: option.splits)
qed

theorem normalize_phone_no_rule_witness:
  "normalize_phone ''12345'' (Some ''KE'') = (''12345'', False, False) \<and>
   normalize_phone '' 0712345678'' (Some ''UG'') = (''0712345678'', False, False) \<and>
   normalize_phone ''0712345678'' None = (''0712345678'', False, False)"
proof -
  have s: "strip ''12345'' = ''12345''" "strip '' 0712345678'' = ''0712345678''"
    "strip ''0712345678'' = ''0712345678''"
    by (simp_all add: strip_def isspace_def)
  show ?thesis
    using normalize_phone_no_rule [of "''12345''" "Some ''KE''"]
      normalize_phone_no_rule [of "'' 0712345678''" "Some ''UG''"]
      normalize_phone_no_rule [of "''0712345678''" None]
    by (simp add: s startswith_def COUNTRY_CODES_def)
qed

text \<open>
  C4 as stated fails on phones with surrounding whitespace: " 123" does not start with
  "00" and has no country hint, yet the result is the trimmed "123", not the input; and
  " 00123" does not start with "00" either, yet the "00" rule fires on its trimmed form.
\<close>

theorem normalize_phone_unchanged_counterexample:
  "\<not> startswith '' 123'' ''00'' \<and>
   normalize_phone '' 123'' None = (''123'', False, False) \<and>
   normalize_phone '' 123'' None \<noteq> ('' 123'', False, False) \<and>
   \<not> startswith '' 00123'' ''00'' \<and>
   normalize_phone '' 00123'' None = (''+123'', True, False) \<and>
   normalize_phone '' 00123'' None \<noteq> ('' 00123'', False, False)"
  by (simp add: normalize_phone_def strip_def isspace_def startswith_def)

text \<open>
  C6, as the code has it. The "00" rule is applied before the country rules, and the
  country rules inspect the string the "00" rule has produced. That string starts with
  "+", which none of (a), (b), (c) accepts, so whenever the "00" rule fires the country
  flag is false: the result is "+" and the trimmed phone without its first two
  characters, with flags (true, false). So normalize("0041791234567", "KE") is
  ("+41791234567", true, false), and normalize("000712345678", "KE") is
  ("+0712345678", true, false) although the trimmed input itself matches rule (a).
\<close>

theorem normalize_phone_00_first:
  "(p \<noteq> [] \<and> startswith (strip p) ''00'' \<longrightarrow>
      normalize_phone p c = (''+'' @ drop 2 (strip p), True, False)) \<and>
   normalize_phone ''0041791234567'' (Some ''KE'') = (''+41791234567'', True, False) \<and>
   normalize_phone ''000712345678'' (Some ''KE'') = (''+0712345678'', True, False)"
proof -
  have "normalize_phone ''0041791234567'' (Some ''KE'') = (''+41791234567'', True, False)"
    by (simp add: normalize_phone_def strip_def isspace_def startswith_def COUNTRY_CODES_def)
  moreover
  have "normalize_phone ''000712345678'' (Some ''KE'') = (''+0712345678'', True, False)"
    by (simp add: normalize_phone_def strip_def isspace_def startswith_def COUNTRY_CODES_def)
  ultimately show ?thesis
    using normalize_phone_00 [of p c] by blast
qed

theorem normalize_phone_00_first_witness:
  "normalize_phone '' 0012345'' None = (''+12345'', True, False)"
proof -
  have s: "strip '' 0012345'' = ''0012345''"
    by (simp add: strip_def isspace_def)
  show ?thesis
    using normalize_phone_00_first [of "'' 0012345''" None]
    by (simp add: s startswith_def)
qed

text \<open>
  C6 as stated says that both flags can be true in one call. They never are.
\<close>

theorem normalize_phone_both_flags_counterexample:
  "\<not> (\<exists>p c. fst (snd (normalize_phone p c)) \<and> snd (snd (normalize_phone p c)))"
proof
  assume "\<exists>p c. fst (snd (normalize_phone p c)) \<and> snd (snd (normalize_phone p c))"
  then obtain p c where b: "fst (snd (normalize_phone p c))" "snd (snd (normalize_phone p c))"
    by blast
  then have p: "p \<noteq> []" by auto
  show False
  proof (cases "startswith (strip p) ''00''")
    case True
    from normalize_phone_00 [OF p True, of c] b show False by simp
  next
    case False
    from normalize_phone_no00 [OF p False, of c] b show False
      by (auto split: option.splits if_splits)
  qed
qed

text \<open>
  C9. Whenever normalize returns with one of its flags true, the returned phone starts
  with "+".
\<close>

theorem normalize_phone_fired_plus:
  assumes "normalize_phone p c = (q, f00, fcc)" and "f00 \<or> fcc"
  shows "startswith q ''+''"
  using normalize_phone_fired [OF assms] by auto

theorem normalize_phone_fired_plus_witness:
  "normalize_phone ''0012345'' None = (''+12345'', True, False) \<and>
   startswith ''+12345'' ''+''"
proof -
  have r: "normalize_phone ''0012345'' None = (''+12345'', True, False)"
    by (simp add: normalize_phone_def strip_def isspace_def startswith_def)
  from normalize_phone_fired_plus [OF r] r show ?thesis by simp
qed

section \<open>Claims about the conversion run\<close>

text \<open>
  C1. With dedupe=phone, every input contact is either written once or counted as a
  duplicate: the written contacts are a subsequence \<open>ks\<close> of the input, the output holds
  exactly their records after what was written before the loop, written is their number,
  written + duplicates = total, no two of them share a normalized phone, and every
  normalized phone of the input is the phone of a written contact. With dedupe disabled
  every contact is written: written = total and duplicates = 0.
\<close>

theorem convert_written_or_duplicate:
  "(dedupe a = Some Phone \<longrightarrow>
      total (convert a cs) = length cs \<and>
      written (convert a cs) + dupes (convert a cs) = total (convert a cs) \<and>
      (\<exists>ks. subseq ks cs \<and>
            length ks = written (convert a cs) \<and>
            out (convert a cs) = out (start a cs) @ concat (map (emitted a) ks) \<and>
            distinct (map (phone_of a) ks) \<and>
            set (map (phone_of a) ks) = set (map (phone_of a) cs))) \<and>
   (dedupe a = None \<longrightarrow>
      total (convert a cs) = length cs \<and>
      written (convert a cs) = total (convert a cs) \<and>
      dupes (convert a cs) = 0 \<and>
      out (convert a cs) = out (start a cs) @ concat (map (emitted a) cs))"
proof (intro conjI impI)
  assume d: "dedupe a = Some Phone"
  from loop_phone [OF d, of cs "start a cs"] obtain ks where ks:
    "subseq ks cs"
    "out (convert a cs) = out (start a cs) @ concat (map (emitted a) ks)"
    "written (convert a cs) = length ks"
    "dupes (convert a cs) + length ks = length cs"
    "total (convert a cs) = length cs"
    "distinct (map (phone_of a) ks)"
    "set (map (phone_of a) ks) = set (map (phone_of a) cs)"
    unfolding convert_def start_simps by auto
  show "total (convert a cs) = length cs" by (rule ks(5))
  show "written (convert a cs) + dupes (convert a cs) = total (convert a cs)"
    using ks(3,4,5) by simp
  show "\<exists>ks. subseq ks cs \<and>
            length ks = written (convert a cs) \<and>
            out (convert a cs) = out (start a cs) @ concat (map (emitted a) ks) \<and>
            distinct (map (phone_of a) ks) \<and>
            set (map (phone_of a) ks) = set (map (phone_of a) cs)"
    using ks(1,2,3,6,7) by (intro exI [of _ ks]) simp
next
  assume d: "dedupe a = None"
  note l = loop_off [OF d, of cs "start a cs"]
  show "total (convert a cs) = length cs"
    using l by (simp add: convert_def start_simps)
  show "written (convert a cs) = total (convert a cs)"
    using l by (simp add: convert_def start_simps)
  show "dupes (convert a cs) = 0"
    using l by (simp add: convert_def start_simps)
  show "out (convert a cs) = out (start a cs) @ concat (map (emitted a) cs)"
    using l by (simp add: convert_def)
qed

theorem convert_written_or_duplicate_witness:
  "written (convert \<lparr>output_file = ''out.csv'', name_mode = Both, country = Some ''KE'',
                     dedupe = Some Phone, format = Csv\<rparr>
      [\<lparr>first_name = Some ''Ann'', last_name = None, phone_number = Some ''0712345678''\<rparr>,
       \<lparr>first_name = Some ''Bob'', last_name = None, phone_number = Some ''+254712345678''\<rparr>,
       \<lparr>first_name = Some ''Cy'', last_name = None, phone_number = Some ''0700000000''\<rparr>]) = 2 \<and>
   dupes (convert \<lparr>output_file = ''out.csv'', name_mode = Both, country = Some ''KE'',
                     dedupe = Some Phone, format = Csv\<rparr>
      [\<lparr>first_name = Some ''Ann'', last_name = None, phone_number = Some ''0712345678''\<rparr>,
       \<lparr>first_name = Some ''Bob'', last_name = None, phone_number = Some ''+254712345678''\<rparr>,
       \<lparr>first_name = Some ''Cy'', last_name = None, phone_number = Some ''0700000000''\<rparr>]) = 1 \<and>
   written (convert \<lparr>output_file = ''out.csv'', name_mode = Both, country = Some ''KE'',
                     dedupe = None, format = Csv\<rparr>
      [\<lparr>first_name = Some ''Ann'', last_name = None, phone_number = Some ''0712345678''\<rparr>,
       \<lparr>first_name = Some ''Bob'', last_name = None, phone_number = Some ''+254712345678''\<rparr>,
       \<lparr>first_name = Some ''Cy'', last_name = None, phone_number = Some ''0700000000''\<rparr>]) = 3"
proof -
  let ?a = "\<lparr>output_file = ''out.csv'', name_mode = Both, country = Some ''KE'',
             dedupe = Some Phone, format = Csv\<rparr>"
  let ?b = "\<lparr>output_file = ''out.csv'', name_mode = Both, country = Some ''KE'',
             dedupe = None, format = Csv\<rparr>"
  let ?cs = "[\<lparr>first_name = Some ''Ann'', last_name = None, phone_number = Some ''0712345678''\<rparr>,
       \<lparr>first_name = Some ''Bob'', last_name = None, phone_number = Some ''+254712345678''\<rparr>,
       \<lparr>first_name = Some ''Cy'', last_name = None, phone_number = Some ''0700000000''\<rparr>]"
  have n: "normalize_phone ''0712345678'' (Some ''KE'') = (''+254712345678'', False, True)"
    "normalize_phone ''+254712345678'' (Some ''KE'') = (''+254712345678'', False, False)"
    "normalize_phone ''0700000000'' (Some ''KE'') = (''+254700000000'', False, True)"
    by (simp_all add: normalize_phone_def strip_def isspace_def startswith_def COUNTRY_CODES_def)
  have w: "written (convert ?a ?cs) = 2"
    by (simp add: convert_def start_def body_def get_default_def n)
  have "dedupe ?a = Some Phone" "dedupe ?b = None" by simp_all
  with w convert_written_or_duplicate [of ?a ?cs] convert_written_or_duplicate [of ?b ?cs]
  show ?thesis by simp
qed

text \<open>
  C5. The claim wants the FN line of a vCard to be "FN:" and the two names joined by one
  space, without the space when one name is empty. Line 154 strips the whole string
  "FN:<first> <last>", so only its end is trimmed: with an empty first name the line is
  "FN: Doe", with a space after the colon. With an empty last name it is "FN:Ann".
\<close>

theorem vcard_fn_empty_first_name:
  "out (convert \<lparr>output_file = ''out.vcf'', name_mode = Both, country = None,
                  dedupe = None, format = Vcf\<rparr>
          [\<lparr>first_name = Some [], last_name = Some ''Doe'', phone_number = Some ''+1''\<rparr>]) =
     [Write ''BEGIN:VCARD\<newline>'',
      Write ''VERSION:3.0\<newline>'',
      Write ''N:Doe;;;;\<newline>'',
      Write ''FN: Doe\<newline>'',
      Write ''TEL;TYPE=CELL:+1\<newline>'',
      Write ''END:VCARD\<newline>\<newline>''] \<and>
   vcard ''Ann'' [] ''+1'' ! 3 = Write ''FN:Ann\<newline>''"
proof -
  have n: "normalize_phone ''+1'' None = (''+1'', False, False)"
    by (simp add: normalize_phone_def strip_def isspace_def startswith_def)
  have s: "strip ''FN: Doe'' = ''FN: Doe''" "strip ''FN:Ann '' = ''FN:Ann''"
    by (simp_all add: strip_def isspace_def)
  show ?thesis
    by (simp add: convert_def start_def body_def get_default_def n emit_def vcard_def s)
qed

text \<open>
  C7. A document without the path contacts.list (it is not an object, or its key
  "contacts" is missing or not bound to an object, or that object has no key "list")
  ends the program before the loop and before the output file is opened: the files on
  disk are unchanged. The program ends with \<^verbatim>\<open>sys.exit(1)\<close> when a key is missing, and with
  an uncaught TypeError when the document or its "contacts" value is not an object.
\<close>

theorem main_fails_before_output:
  assumes "\<not> has_contacts_list data"
  shows "main a files data = Some (SystemExit 1, files) \<or>
         main a files data = Some (Uncaught TypeError, files)"
  using not_has_contacts_list [OF assms] by (auto simp: main_def)

theorem main_fails_before_output_witness:
  "\<not> has_contacts_list (JObj [(''contacts'', JObj [(''items'', JArr [])])]) \<and>
   main \<lparr>output_file = ''out.csv'', name_mode = Both, country = None,
         dedupe = None, format = Csv\<rparr>
        Map.empty (JObj [(''contacts'', JObj [(''items'', JArr [])])]) =
     Some (SystemExit 1, Map.empty) \<and>
   \<not> has_contacts_list (JArr []) \<and>
   main \<lparr>output_file = ''out.csv'', name_mode = Both, country = None,
         dedupe = None, format = Csv\<rparr>
        Map.empty (JArr []) =
     Some (Uncaught TypeError, Map.empty)"
proof -
  let ?a = "\<lparr>output_file = ''out.csv'', name_mode = Both, country = None,
             dedupe = None, format = Csv\<rparr>"
  let ?d = "JObj [(''contacts'', JObj [(''items'', JArr [])])]"
  have h: "\<not> has_contacts_list ?d" "\<not> has_contacts_list (JArr [])"
    by (simp_all add: has_contacts_list_def)
  have "main ?a Map.empty ?d \<noteq> Some (Uncaught TypeError, Map.empty)"
    by (simp add: main_def contacts_list_def)
  moreover have "main ?a Map.empty (JArr []) \<noteq> Some (SystemExit 1, Map.empty)"
    by (simp add: main_def contacts_list_def)
  ultimately show ?thesis
    using h main_fails_before_output [OF h(1), of ?a Map.empty]
      main_fails_before_output [OF h(2), of ?a Map.empty]
    by blast
qed

text \<open>
  C8. In CSV format the output is one header row followed by one data row per written
  contact, each with as many cells as the header. The header is "First Name" when the
  name mode is first or both, then "Last Name" when it is last or both, then "Phone", so
  it has one column more than there are enabled name columns. In VCF format the output
  is the concatenation of as many vCard blocks as contacts were written; in particular
  it holds that many "BEGIN:VCARD" lines.
\<close>

theorem convert_output_layout:
  "(format a = Csv \<longrightarrow>
      (\<exists>rows. out (convert a cs) = Row (headers (name_mode a)) # map Row rows \<and>
              length rows = written (convert a cs) \<and>
              list_all (\<lambda>row. length row = length (headers (name_mode a))) rows)) \<and>
   headers First = [''First Name'', ''Phone''] \<and>
   headers Last = [''Last Name'', ''Phone''] \<and>
   headers Both = [''First Name'', ''Last Name'', ''Phone''] \<and>
   length (headers nm) =
     (if nm = First \<or> nm = Both then 1 else 0) + (if nm = Last \<or> nm = Both then 1 else 0) + 1 \<and>
   (format a = Vcf \<longrightarrow>
      (\<exists>blocks. out (convert a cs) = concat blocks \<and>
              length blocks = written (convert a cs) \<and>
              list_all (\<lambda>b. \<exists>f l p. b = vcard f l p) blocks) \<and>
      length (filter (\<lambda>w. w = Write ''BEGIN:VCARD\<newline>'') (out (convert a cs))) =
        written (convert a cs))"
proof -
  obtain ks where ks:
    "out (convert a cs) = out (start a cs) @ concat (map (emitted a) ks)"
    "written (convert a cs) = length ks"
    using loop_kept [of cs a "start a cs"] unfolding convert_def start_simps by auto
  have csv: "\<exists>rows. out (convert a cs) = Row (headers (name_mode a)) # map Row rows \<and>
              length rows = written (convert a cs) \<and>
              list_all (\<lambda>row. length row = length (headers (name_mode a))) rows"
    if f: "format a = Csv"
  proof -
    let ?row = "\<lambda>c. csv_row (name_mode a) (get_default (first_name c))
                  (get_default (last_name c)) (phone_of a c)"
    have "concat (map (emitted a) ks) = map Row (map ?row ks)"
      using f by (induction ks) (simp_all add: emitted_def emit_def)
    then have "out (convert a cs) = Row (headers (name_mode a)) # map Row (map ?row ks)"
      using f ks(1) by (simp add: start_def)
    moreover have "list_all (\<lambda>row. length row = length (headers (name_mode a))) (map ?row ks)"
      by (simp add: list_all_iff csv_row_def headers_def)
    ultimately show ?thesis using ks(2) by (intro exI [of _ "map ?row ks"]) simp
  qed
  have vcf: "(\<exists>blocks. out (convert a cs) = concat blocks \<and>
              length blocks = written (convert a cs) \<and>
              list_all (\<lambda>b. \<exists>f l p. b = vcard f l p) blocks) \<and>
      length (filter (\<lambda>w. w = Write ''BEGIN:VCARD\<newline>'') (out (convert a cs))) =
        written (convert a cs)"
    if f: "format a = Vcf"
  proof
    have o: "out (convert a cs) = concat (map (emitted a) ks)"
      using f ks(1) by (simp add: start_def)
    have "list_all (\<lambda>b. \<exists>f l p. b = vcard f l p) (map (emitted a) ks)"
      using f by (auto simp: list_all_iff emitted_def emit_def)
    then show "\<exists>blocks. out (convert a cs) = concat blocks \<and>
              length blocks = written (convert a cs) \<and>
              list_all (\<lambda>b. \<exists>f l p. b = vcard f l p) blocks"
      using o ks(2) by (intro exI [of _ "map (emitted a) ks"]) simp
    show "length (filter (\<lambda>w. w = Write ''BEGIN:VCARD\<newline>'') (out (convert a cs))) =
        written (convert a cs)"
      unfolding o ks(2) by (rule vcards_begin_count [OF f])
  qed
  have h: "headers First = [''First Name'', ''Phone'']"
    "headers Last = [''Last Name'', ''Phone'']"
    "headers Both = [''First Name'', ''Last Name'', ''Phone'']"
    "length (headers nm) =
     (if nm = First \<or> nm = Both then 1 else 0) + (if nm = Last \<or> nm = Both then 1 else 0) + 1"
    by (simp_all add: headers_def)
  from csv vcf h show ?thesis by blast
qed

theorem convert_output_layout_witness:
  "format \<lparr>output_file = ''out.csv'', name_mode = First, country = None,
           dedupe = None, format = Csv\<rparr> = Csv \<and>
   out (convert \<lparr>output_file = ''out.csv'', name_mode = First, country = None,
                  dedupe = None, format = Csv\<rparr>
          [\<lparr>first_name = Some ''Ann'', last_name = Some ''Lee'', phone_number = Some ''+1''\<rparr>]) =
     [Row [''First Name'', ''Phone''], Row [''Ann'', ''+1'']] \<and>
   format \<lparr>output_file = ''out.vcf'', name_mode = First, country = None,
           dedupe = None, format = Vcf\<rparr> = Vcf \<and>
   length (filter (\<lambda>w. w = Write ''BEGIN:VCARD\<newline>'')
     (out (convert \<lparr>output_file = ''out.vcf'', name_mode = First, country = None,
                    dedupe = None, format = Vcf\<rparr>
          [\<lparr>first_name = Some ''Ann'', last_name = Some ''Lee'', phone_number = Some ''+1''\<rparr>]))) = 1"
proof -
  let ?a = "\<lparr>output_file = ''out.csv'', name_mode = First, country = None,
             dedupe = None, format = Csv\<rparr>"
  let ?b = "\<lparr>output_file = ''out.vcf'', name_mode = First, country = None,
             dedupe = None, format = Vcf\<rparr>"
  let ?cs = "[\<lparr>first_name = Some ''Ann'', last_name = Some ''Lee'', phone_number = Some ''+1''\<rparr>]"
  have n: "normalize_phone ''+1'' None = (''+1'', False, False)"
    by (simp add: normalize_phone_def strip_def isspace_def startswith_def)
  have o: "out (convert ?a ?cs) = [Row [''First Name'', ''Phone''], Row [''Ann'', ''+1'']]"
    by (simp add: convert_def start_def body_def get_default_def n emit_def csv_row_def
        headers_def)
  have w: "written (convert ?b ?cs) = 1"
    by (simp add: convert_def start_def body_def get_default_def n)
  have f: "format ?a = Csv" "format ?b = Vcf" by simp_all
  note csv = convert_output_layout [of ?a ?cs First, THEN conjunct1, THEN mp, OF f(1)]
  then obtain rows where "out (convert ?a ?cs) = Row (headers (name_mode ?a)) # map Row rows"
    by blast
  then have o': "out (convert ?a ?cs) = [Row [''First Name'', ''Phone''], Row [''Ann'', ''+1'']]"
    using o by simp
  from convert_output_layout [of ?b ?cs] f(2) w
  have b: "length (filter (\<lambda>w. w = Write ''BEGIN:VCARD\<newline>'') (out (convert ?b ?cs))) = 1"
    by simp
  show ?thesis by (rule conjI [OF f(1) conjI [OF o' conjI [OF f(2) b]]])
qed

text \<open>
  C10. With dedupe=phone the empty string is a key like any other. A contact without
  phone_number, or with an empty one, has the empty normalized phone. In a run over
  \<open>pre @ c # rest\<close> where \<open>c\<close> is the first contact whose normalized phone is empty, the
  iteration for \<open>c\<close> writes its record and counts it as written; and for every later
  contact \<open>d\<close> of the run whose normalized phone is empty, the iteration for \<open>d\<close> writes
  nothing and counts one more duplicate.
\<close>

theorem empty_phone_deduplicated:
  assumes "dedupe a = Some Phone"
    and "list_all (\<lambda>x. phone_of a x \<noteq> []) pre"
    and "phone_of a c = []"
    and "s = loop a pre (start a (pre @ c # rest))"
  shows
    "out (body a c s) = out s @ emitted a c \<and>
     written (body a c s) = written s + 1 \<and>
     dupes (body a c s) = dupes s \<and>
     (\<forall>mid d post t.
        rest = mid @ d # post \<and> phone_of a d = [] \<and> t = loop a mid (body a c s) \<longrightarrow>
          convert a (pre @ c # rest) = loop a post (body a d t) \<and>
          out (body a d t) = out t \<and>
          written (body a d t) = written t \<and>
          dupes (body a d t) = dupes t + 1) \<and>
     (phone_number x = None \<or> phone_number x = Some [] \<longrightarrow> phone_of a x = [])"
proof -
  have "seen_phones s = set (map (phone_of a) pre)"
    unfolding assms(4) loop_seen [OF assms(1)] start_simps by simp
  then have new: "phone_of a c \<notin> seen_phones s"
    using assms(2,3) by (auto simp: list_all_iff)
  note b = body_new [OF assms(1) new]
  have later: "convert a (pre @ c # rest) = loop a post (body a d t) \<and>
          out (body a d t) = out t \<and>
          written (body a d t) = written t \<and>
          dupes (body a d t) = dupes t + 1"
    if "rest = mid @ d # post" "phone_of a d = []" "t = loop a mid (body a c s)"
    for mid d post t
  proof -
    have "phone_of a d \<in> seen_phones t"
      unfolding that(3) loop_seen [OF assms(1)] b(4) using that(2) assms(3) by simp
    note dd = body_dup [OF assms(1) this]
    have "convert a (pre @ c # rest) = loop a post (body a d t)"
      unfolding convert_def that(1,3) assms(4) by (simp add: loop_append)
    with dd show ?thesis by simp
  qed
  have "phone_of a x = []" if "phone_number x = None \<or> phone_number x = Some []"
    using that by (auto simp: phone_of_def get_default_def)
  with b later show ?thesis by blast
qed

theorem empty_phone_deduplicated_witness:
  "out (convert \<lparr>output_file = ''out.csv'', name_mode = First, country = None,
                  dedupe = Some Phone, format = Csv\<rparr>
          [\<lparr>first_name = Some ''Ann'', last_name = None, phone_number = Some ''+1''\<rparr>,
           \<lparr>first_name = Some ''Bob'', last_name = None, phone_number = None\<rparr>,
           \<lparr>first_name = Some ''Cy'', last_name = None, phone_number = Some []\<rparr>]) =
     [Row [''First Name'', ''Phone''], Row [''Ann'', ''+1''], Row [''Bob'', []]] \<and>
   dupes (convert \<lparr>output_file = ''out.csv'', name_mode = First, country = None,
                  dedupe = Some Phone, format = Csv\<rparr>
          [\<lparr>first_name = Some ''Ann'', last_name = None, phone_number = Some ''+1''\<rparr>,
           \<lparr>first_name = Some ''Bob'', last_name = None, phone_number = None\<rparr>,
           \<lparr>first_name = Some ''Cy'', last_name = None, phone_number = Some []\<rparr>]) = 1"
proof -
  let ?a = "\<lparr>output_file = ''out.csv'', name_mode = First, country = None,
             dedupe = Some Phone, format = Csv\<rparr>"
  let ?c0 = "\<lparr>first_name = Some ''Ann'', last_name = None, phone_number = Some ''+1''\<rparr>"
  let ?c1 = "\<lparr>first_name = Some ''Bob'', last_name = None, phone_number = None\<rparr>"
  let ?c2 = "\<lparr>first_name = Some ''Cy'', last_name = None, phone_number = Some []\<rparr>"
  let ?s = "loop ?a [?c0] (start ?a ([?c0] @ ?c1 # [?c2]))"
  let ?t = "loop ?a [] (body ?a ?c1 ?s)"
  have n: "normalize_phone ''+1'' None = (''+1'', False, False)"
    by (simp add: normalize_phone_def strip_def isspace_def startswith_def)
  have p: "phone_of ?a ?c0 = ''+1''" "phone_of ?a ?c1 = []" "phone_of ?a ?c2 = []"
    by (simp_all add: phone_of_def get_default_def n)
  have s: "out ?s = [Row [''First Name'', ''Phone''], Row [''Ann'', ''+1'']]" "dupes ?s = 0"
    by (simp_all add: start_def body_def get_default_def n emit_def csv_row_def headers_def)
  have e: "emitted ?a ?c1 = [Row [''Bob'', []]]"
    by (simp add: emitted_def emit_def csv_row_def p get_default_def)
  have 1: "dedupe ?a = Some Phone" by simp
  have 2: "list_all (\<lambda>x. phone_of ?a x \<noteq> []) [?c0]" by (simp add: p)
  note th = empty_phone_deduplicated [OF 1 2 p(2) refl, of "[?c2]"]
  note c1 = th [THEN conjunct1]
  note c3 = th [THEN conjunct2, THEN conjunct2, THEN conjunct1]
  note al = th [THEN conjunct2, THEN conjunct2, THEN conjunct2, THEN conjunct1]
  have "[?c2] = [] @ ?c2 # [] \<and> phone_of ?a ?c2 = [] \<and> ?t = loop ?a [] (body ?a ?c1 ?s)"
    using p(3) by simp
  from al [rule_format, OF this]
  have d: "convert ?a ([?c0] @ ?c1 # [?c2]) = loop ?a [] (body ?a ?c2 ?t)"
    "out (body ?a ?c2 ?t) = out ?t"
    "dupes (body ?a ?c2 ?t) = dupes ?t + 1"
    by (rule conjunct1, rule conjunct2 [THEN conjunct1],
        rule conjunct2 [THEN conjunct2, THEN conjunct2])
  have t: "?t = body ?a ?c1 ?s" by (rule loop.simps(1))
  have l: "[?c0, ?c1, ?c2] = [?c0] @ ?c1 # [?c2]" by simp
  have cv: "convert ?a [?c0, ?c1, ?c2] = body ?a ?c2 ?t"
    unfolding l d(1) by (rule loop.simps(1))
  have o: "out (convert ?a [?c0, ?c1, ?c2]) =
      [Row [''First Name'', ''Phone''], Row [''Ann'', ''+1''], Row [''Bob'', []]]"
    unfolding cv d(2) unfolding t c1 s(1) e by simp
  have du: "dupes (convert ?a [?c0, ?c1, ?c2]) = 1"
    unfolding cv d(3) unfolding t c3 s(2) by simp
  show ?thesis by (rule conjI [OF o du])
qed

end
